theory Spec2Isabelle
  imports Main "HOL-Library.Word"
begin

unbundle bit_operations_syntax

section \<open>Machine integers of the driver\<close>

type_synonym u8 = "8 word"
type_synonym u16 = "16 word"
type_synonym u32 = "32 word"

text \<open>
  \<open>int16_t\<close> is a 16-bit word read with \<open>sint\<close>.
\<close>

type_synonym i16 = "16 word"

text \<open>
  The width of the C type \<open>int\<close> is fixed by the compiler target, not by \<open>LSM6.cpp\<close>.
  It decides the integral promotions: operands of type \<open>uint8_t\<close> are promoted to
  \<open>int\<close> on every target; operands of type \<open>uint16_t\<close> are promoted to \<open>int\<close> where
  \<open>int\<close> has 32 bits and to \<open>unsigned int\<close> where it has 16. The width is therefore
  a parameter of every function whose arithmetic depends on it.
\<close>

datatype c_int = Int_16bit | Int_32bit

section \<open>The two-wire bus and the millisecond clock\<close>

text \<open>
  The bus object \<open>twMaster\<close> and the function \<open>millis\<close> are external to the driver.
  The world the driver runs in is the list of calls it has made so far, oldest first.
\<close>

datatype event =
    BeginTransmission u8
  | Write u8
  | EndTransmission
  | RequestFrom u8 u8
  | Available
  | Read
  | Millis

type_synonym world = "event list"

text \<open>
  Modelled from the spec: the header \<open>TwoWire.h\<close> is missing. The spec's transport
  contract is \<open>endTransmission() \<rightarrow> status code (0 = success)\<close>,
  \<open>available() \<rightarrow> count of bytes ready\<close>, \<open>read() \<rightarrow> next byte\<close>, and a millisecond
  timestamp source. What each call answers is an arbitrary function of the calls made
  before it, which covers every deterministic bus and clock.
\<close>

record TwoWire =
  endTransmission_status :: "world \<Rightarrow> u8"
  available_count :: "world \<Rightarrow> int"
  read_byte :: "world \<Rightarrow> u8"
  millis_value :: "world \<Rightarrow> u32"

definition beginTransmission :: "u8 \<Rightarrow> world \<Rightarrow> world" where
  "beginTransmission addr w = w @ [BeginTransmission addr]"

text \<open>\<open>twMaster.write\<close>; the name \<open>write\<close> is reserved in Isabelle.\<close>

definition write_tw :: "u8 \<Rightarrow> world \<Rightarrow> world" where
  "write_tw b w = w @ [Write b]"

definition endTransmission :: "TwoWire \<Rightarrow> world \<Rightarrow> u8 \<times> world" where
  "endTransmission tw w = (endTransmission_status tw w, w @ [EndTransmission])"

definition requestFrom :: "u8 \<Rightarrow> u8 \<Rightarrow> world \<Rightarrow> world" where
  "requestFrom addr n w = w @ [RequestFrom addr n]"

definition available :: "TwoWire \<Rightarrow> world \<Rightarrow> int \<times> world" where
  "available tw w = (available_count tw w, w @ [Available])"

definition read :: "TwoWire \<Rightarrow> world \<Rightarrow> u8 \<times> world" where
  "read tw w = (read_byte tw w, w @ [Read])"

definition millis :: "TwoWire \<Rightarrow> world \<Rightarrow> u32 \<times> world" where
  "millis tw w = (millis_value tw w, w @ [Millis])"

section \<open>Constants and the driver object\<close>

definition DS33_SA0_HIGH_ADDRESS :: u8 where
  "DS33_SA0_HIGH_ADDRESS = 0x6B"

definition DS33_SA0_LOW_ADDRESS :: u8 where
  "DS33_SA0_LOW_ADDRESS = 0x6A"

definition TEST_REG_ERROR :: i16 where
  "TEST_REG_ERROR = - 1"

definition DS33_WHO_ID :: int where
  "DS33_WHO_ID = 0x69"

text \<open>
  Modelled from the spec: the header \<open>LSM6.h\<close> is missing. The spec gives one
  recognised chip variant plus an unresolved sentinel, and the address-select states
  high, low and auto; the constructor names are the ones \<open>LSM6.cpp\<close> uses.
\<close>

datatype deviceType = device_DS33 | device_auto

datatype sa0State = sa0_low | sa0_high | sa0_auto

text \<open>
  The register addresses of the enumeration \<open>regAddr\<close> are declared in the missing
  header too; the ones the functions below use are taken as a parameter.
\<close>

record regAddr =
  WHO_AM_I :: u8
  OUTX_L_G :: u8
  OUTX_L_XL :: u8

record vector =
  x :: i16
  y :: i16
  z :: i16

text \<open>The field \<open>_device\<close> of the class is written \<open>LSM6_device\<close>.\<close>

record LSM6 =
  a :: vector
  g :: vector
  last_status :: u8
  LSM6_device :: deviceType
  address :: u8
  io_timeout :: u16
  did_timeout :: bool

section \<open>Public methods\<close>

definition timeoutOccurred :: "LSM6 \<Rightarrow> bool \<times> LSM6" where
  "timeoutOccurred drv =
     (let tmp = did_timeout drv
      in (tmp, drv\<lparr>did_timeout := False\<rparr>))"

definition setTimeout :: "u16 \<Rightarrow> LSM6 \<Rightarrow> LSM6" where
  "setTimeout timeout drv = drv\<lparr>io_timeout := timeout\<rparr>"

definition getTimeout :: "LSM6 \<Rightarrow> u16" where
  "getTimeout drv = io_timeout drv"

subsection \<open>testReg (private) and init\<close>

definition testReg :: "TwoWire \<Rightarrow> u8 \<Rightarrow> u8 \<Rightarrow> world \<Rightarrow> i16 \<times> world" where
  "testReg tw addr reg w =
     (case endTransmission tw (write_tw reg (beginTransmission addr w)) of
        (status, w3) \<Rightarrow>
          if status \<noteq> 0 then (TEST_REG_ERROR, w3)
          else
            (case available tw (requestFrom addr 1 w3) of
               (n, w5) \<Rightarrow>
                 if n \<noteq> 0 then (case read tw w5 of (b, w6) \<Rightarrow> (ucast b, w6))
                 else (TEST_REG_ERROR, w5)))"

text \<open>
  The auto-detection block of \<open>init\<close> (the body of its first \<open>if\<close>, up to the failure
  check): it works on the local copies of \<open>device\<close> and \<open>sa0\<close> and returns them. The
  \<open>&&\<close> of the source does not call \<open>testReg\<close> when its left operand is false.
\<close>

definition detect ::
  "TwoWire \<Rightarrow> regAddr \<Rightarrow> deviceType \<Rightarrow> sa0State \<Rightarrow> world \<Rightarrow> deviceType \<times> sa0State \<times> world"
where
  "detect tw regs device sa0 w =
     (if device = device_auto \<or> device = device_DS33 then
        (case (if sa0 \<noteq> sa0_low
               then (case testReg tw DS33_SA0_HIGH_ADDRESS (WHO_AM_I regs) w of
                       (r, w1) \<Rightarrow> (sint r = DS33_WHO_ID, w1))
               else (False, w)) of
           (high_found, w1) \<Rightarrow>
             if high_found
             then (if device = device_auto then device_DS33 else device, sa0_high, w1)
             else
               (case (if sa0 \<noteq> sa0_high
                      then (case testReg tw DS33_SA0_LOW_ADDRESS (WHO_AM_I regs) w1 of
                              (r, w2) \<Rightarrow> (sint r = DS33_WHO_ID, w2))
                      else (False, w1)) of
                  (low_found, w2) \<Rightarrow>
                    if low_found
                    then (if device = device_auto then device_DS33 else device, sa0_low, w2)
                    else (device, sa0, w2)))
      else (device, sa0, w))"

text \<open>
  \<open>init\<close>. The failure check of the source sits at the end of its first \<open>if\<close>, so it
  is reached only when detection ran. The \<open>switch\<close> has a case for \<open>device_DS33\<close>
  only; the members are assigned after the failure check.
\<close>

definition init ::
  "TwoWire \<Rightarrow> regAddr \<Rightarrow> deviceType \<Rightarrow> sa0State \<Rightarrow> LSM6 \<times> world \<Rightarrow> bool \<times> LSM6 \<times> world"
where
  "init tw regs device sa0 s =
     (case s of (drv, w) \<Rightarrow>
        (case (if device = device_auto \<or> sa0 = sa0_auto
               then detect tw regs device sa0 w
               else (device, sa0, w)) of
           (device1, sa01, w1) \<Rightarrow>
             if (device = device_auto \<or> sa0 = sa0_auto)
                \<and> (device1 = device_auto \<or> sa01 = sa0_auto)
             then (False, drv, w1)
             else
               (True,
                (case device1 of
                   device_DS33 \<Rightarrow>
                     drv\<lparr>LSM6_device := device1,
                         address := (if sa01 = sa0_high then DS33_SA0_HIGH_ADDRESS
                                     else DS33_SA0_LOW_ADDRESS)\<rparr>
                 | device_auto \<Rightarrow> drv\<lparr>LSM6_device := device1\<rparr>),
                w1)))"

subsection \<open>readAcc and readGyro\<close>

text \<open>
  The expression \<open>(int16_t)(xh << 8 | xl)\<close>. Both bytes are promoted to \<open>int\<close>; the
  shift and the or are done at that width and the cast keeps the low 16 bits. With a
  16-bit \<open>int\<close> the shift reaches the sign bit; the two's-complement result of the
  compiler is what the word operations give.
\<close>

definition combine :: "c_int \<Rightarrow> u8 \<Rightarrow> u8 \<Rightarrow> i16" where
  "combine ci xh xl =
     (case ci of
        Int_16bit \<Rightarrow> push_bit 8 (ucast xh :: 16 word) OR ucast xl
      | Int_32bit \<Rightarrow> ucast (push_bit 8 (ucast xh :: 32 word) OR ucast xl))"

text \<open>
  The value of the expression \<open>(uint16_t)millis() - millis_start\<close>, where \<open>now\<close> is
  \<open>(uint16_t)millis()\<close>. With a 16-bit \<open>int\<close> both operands are \<open>unsigned int\<close> and
  the difference wraps; with a 32-bit \<open>int\<close> both are promoted to \<open>int\<close> and the
  difference is signed.
\<close>

definition elapsed :: "c_int \<Rightarrow> u16 \<Rightarrow> u16 \<Rightarrow> int" where
  "elapsed ci now millis_start =
     (case ci of
        Int_16bit \<Rightarrow> uint (now - millis_start)
      | Int_32bit \<Rightarrow> sint ((ucast now :: 32 word) - ucast millis_start))"

text \<open>
  The condition \<open>io_timeout > 0 && ((uint16_t)millis() - millis_start) > io_timeout\<close>,
  given the answer of \<open>millis()\<close>; \<open>io_timeout\<close> is promoted like the difference.
\<close>

definition timeout_expired :: "c_int \<Rightarrow> u16 \<Rightarrow> u32 \<Rightarrow> u16 \<Rightarrow> bool" where
  "timeout_expired ci timeout m millis_start =
     (elapsed ci (ucast m) millis_start > uint timeout)"

text \<open>
  The loop \<open>while (twMaster.available() < 6)\<close>. It returns \<open>True\<close> when it is left by
  the \<open>return\<close> of the timeout branch and \<open>False\<close> when six bytes are available;
  \<open>None\<close> is a loop that never ends. \<open>millis\<close> is called only when \<open>io_timeout > 0\<close>.
\<close>

partial_function (option) poll ::
  "c_int \<Rightarrow> TwoWire \<Rightarrow> u16 \<Rightarrow> u16 \<Rightarrow> world \<Rightarrow> (bool \<times> world) option"
where
  "poll ci tw timeout millis_start w =
     (case available tw w of
        (n, w1) \<Rightarrow>
          if n < 6 then
            (if timeout > 0 then
               (case millis tw w1 of
                  (m, w2) \<Rightarrow>
                    if timeout_expired ci timeout m millis_start then Some (True, w2)
                    else poll ci tw timeout millis_start w2)
             else poll ci tw timeout millis_start w1)
          else Some (False, w1))"

definition readAcc ::
  "c_int \<Rightarrow> TwoWire \<Rightarrow> regAddr \<Rightarrow> LSM6 \<times> world \<Rightarrow> (LSM6 \<times> world) option"
where
  "readAcc ci tw regs s =
     (case s of (drv, w) \<Rightarrow>
        (case endTransmission tw (write_tw (OUTX_L_XL regs) (beginTransmission (address drv) w)) of
           (status, w3) \<Rightarrow>
             (case millis tw (requestFrom (address drv) 6 w3) of
                (m, w5) \<Rightarrow>
                  (case poll ci tw (io_timeout drv) (ucast m) w5 of
                     None \<Rightarrow> None
                   | Some (True, w6) \<Rightarrow> Some (drv\<lparr>did_timeout := True\<rparr>, w6)
                   | Some (False, w6) \<Rightarrow>
                       (case read tw w6 of (xla, w7) \<Rightarrow>
                        case read tw w7 of (xha, w8) \<Rightarrow>
                        case read tw w8 of (yla, w9) \<Rightarrow>
                        case read tw w9 of (yha, w10) \<Rightarrow>
                        case read tw w10 of (zla, w11) \<Rightarrow>
                        case read tw w11 of (zha, w12) \<Rightarrow>
                          Some (drv\<lparr>a := \<lparr>x = combine ci xha xla,
                                            y = combine ci yha yla,
                                            z = combine ci zha zla\<rparr>\<rparr>, w12))))))"

definition readGyro ::
  "c_int \<Rightarrow> TwoWire \<Rightarrow> regAddr \<Rightarrow> LSM6 \<times> world \<Rightarrow> (LSM6 \<times> world) option"
where
  "readGyro ci tw regs s =
     (case s of (drv, w) \<Rightarrow>
        (case endTransmission tw (write_tw (OUTX_L_G regs) (beginTransmission (address drv) w)) of
           (status, w3) \<Rightarrow>
             (case millis tw (requestFrom (address drv) 6 w3) of
                (m, w5) \<Rightarrow>
                  (case poll ci tw (io_timeout drv) (ucast m) w5 of
                     None \<Rightarrow> None
                   | Some (True, w6) \<Rightarrow> Some (drv\<lparr>did_timeout := True\<rparr>, w6)
                   | Some (False, w6) \<Rightarrow>
                       (case read tw w6 of (xlg, w7) \<Rightarrow>
                        case read tw w7 of (xhg, w8) \<Rightarrow>
                        case read tw w8 of (ylg, w9) \<Rightarrow>
                        case read tw w9 of (yhg, w10) \<Rightarrow>
                        case read tw w10 of (zlg, w11) \<Rightarrow>
                        case read tw w11 of (zhg, w12) \<Rightarrow>
                          Some (drv\<lparr>g := \<lparr>x = combine ci xhg xlg,
                                            y = combine ci yhg ylg,
                                            z = combine ci zhg zlg\<rparr>\<rparr>, w12))))))"

section \<open>Notions the properties are stated with\<close>

text \<open>
  The reference decoding of claim C1, written from the spec's words: the pair is the
  unsigned number \<open>xl + 256 * xh\<close>, read as 16-bit two's complement.
\<close>

definition decode_twos_complement :: "u8 \<Rightarrow> u8 \<Rightarrow> int" where
  "decode_twos_complement xl xh =
     (let u = uint xl + 256 * uint xh
      in if u < 32768 then u else u - 65536)"

text \<open>
  The world in which \<open>readAcc\<close> and \<open>readGyro\<close> take \<open>millis_start\<close>: the block
  starting at register \<open>reg\<close> has been requested from the chip at \<open>addr\<close>.
\<close>

definition requested :: "u8 \<Rightarrow> u8 \<Rightarrow> world \<Rightarrow> world" where
  "requested addr reg w =
     w @ [BeginTransmission addr, Write reg, EndTransmission, RequestFrom addr 6]"

text \<open>
  The world after \<open>k\<close> rounds of the loop that found fewer than six bytes: with a
  timeout configured each round calls \<open>available\<close> and \<open>millis\<close>, without one only
  \<open>available\<close>.
\<close>

definition polled :: "world \<Rightarrow> nat \<Rightarrow> world" where
  "polled w k = w @ concat (replicate k [Available, Millis])"

definition waited :: "world \<Rightarrow> nat \<Rightarrow> world" where
  "waited w k = w @ replicate k Available"

text \<open>
  A read of the block at \<open>reg\<close> started in world \<open>w\<close> times out in round \<open>k\<close>: up to
  and including that round fewer than six bytes are available, and in that round the
  timeout test of the source holds.
\<close>

definition times_out_at :: "c_int \<Rightarrow> TwoWire \<Rightarrow> u16 \<Rightarrow> u8 \<Rightarrow> u8 \<Rightarrow> world \<Rightarrow> nat \<Rightarrow> bool" where
  "times_out_at ci tw timeout addr reg w k \<longleftrightarrow>
     (\<forall>j\<le>k. available_count tw (polled (requested addr reg w @ [Millis]) j) < 6)
     \<and> timeout_expired ci timeout
         (millis_value tw (polled (requested addr reg w @ [Millis]) k @ [Available]))
         (ucast (millis_value tw (requested addr reg w)))"

text \<open>
  Without a timeout, the bus reports six bytes for the first time in round \<open>k\<close> of a
  read started in world \<open>w\<close>.
\<close>

definition ready_at :: "TwoWire \<Rightarrow> u8 \<Rightarrow> u8 \<Rightarrow> world \<Rightarrow> nat \<Rightarrow> bool" where
  "ready_at tw addr reg w k \<longleftrightarrow>
     (\<forall>j<k. available_count tw (waited (requested addr reg w @ [Millis]) j) < 6)
     \<and> 6 \<le> available_count tw (waited (requested addr reg w @ [Millis]) k)"

text \<open>The vector made of the six bytes the bus hands out from world \<open>w\<close> on.\<close>

definition sample :: "c_int \<Rightarrow> TwoWire \<Rightarrow> world \<Rightarrow> vector" where
  "sample ci tw w =
     \<lparr>x = combine ci (read_byte tw (w @ [Read])) (read_byte tw w),
      y = combine ci (read_byte tw (w @ [Read, Read, Read])) (read_byte tw (w @ [Read, Read])),
      z = combine ci (read_byte tw (w @ [Read, Read, Read, Read, Read]))
            (read_byte tw (w @ [Read, Read, Read, Read]))\<rparr>"

text \<open>
  A probe of \<open>init\<close> at a candidate address: whether the identity register answers
  with the chip identity, and the world after the probe.
\<close>

definition probe_matches :: "TwoWire \<Rightarrow> regAddr \<Rightarrow> u8 \<Rightarrow> world \<Rightarrow> bool" where
  "probe_matches tw regs addr w \<longleftrightarrow>
     sint (fst (testReg tw addr (WHO_AM_I regs) w)) = DS33_WHO_ID"

definition after_probe :: "TwoWire \<Rightarrow> regAddr \<Rightarrow> u8 \<Rightarrow> world \<Rightarrow> world" where
  "after_probe tw regs addr w = snd (testReg tw addr (WHO_AM_I regs) w)"

text \<open>The bus addresses of the transactions begun in a world, in order.\<close>

definition probed :: "world \<Rightarrow> u8 list" where
  "probed w = concat (map (\<lambda>e. case e of BeginTransmission addr \<Rightarrow> [addr] | _ \<Rightarrow> []) w)"

text \<open>
  A vector holds, axis by axis, the decoding of the six bytes the bus hands out from
  world \<open>w\<close> on: the first byte read is the low and the second the high byte of X, the
  next two make Y, the last two Z.
\<close>

definition decodes :: "TwoWire \<Rightarrow> world \<Rightarrow> vector \<Rightarrow> bool" where
  "decodes tw w v \<longleftrightarrow>
     sint (x v) = decode_twos_complement (read_byte tw w) (read_byte tw (w @ [Read]))
     \<and> sint (y v) =
         decode_twos_complement (read_byte tw (w @ [Read, Read]))
           (read_byte tw (w @ [Read, Read, Read]))
     \<and> sint (z v) =
         decode_twos_complement (read_byte tw (w @ [Read, Read, Read, Read]))
           (read_byte tw (w @ [Read, Read, Read, Read, Read]))"

text \<open>
  The premise of claim C2, read off the bus and the clock alone: a read of the block at
  \<open>reg\<close> started in world \<open>w\<close> is overdue in round \<open>k\<close> when fewer than six bytes have
  been available in every round up to \<open>k\<close> and, in round \<open>k\<close>, more than \<open>timeout\<close>
  milliseconds have passed on the clock since \<open>millis_start\<close> was taken.
\<close>

definition overdue_at :: "TwoWire \<Rightarrow> u16 \<Rightarrow> u8 \<Rightarrow> u8 \<Rightarrow> world \<Rightarrow> nat \<Rightarrow> bool" where
  "overdue_at tw timeout addr reg w k \<longleftrightarrow>
     (\<forall>j\<le>k. available_count tw (polled (requested addr reg w @ [Millis]) j) < 6)
     \<and> uint timeout <
         uint (millis_value tw (polled (requested addr reg w @ [Millis]) k @ [Available])
               - millis_value tw (requested addr reg w))"

text \<open>
  The 16-bit counter can show the time elapsed in round \<open>k\<close>: that time is below
  \<open>2^16\<close> ms and, where \<open>int\<close> has 32 bits, the counter has not wrapped since the read
  started.
\<close>

definition counter_tracks :: "c_int \<Rightarrow> TwoWire \<Rightarrow> u8 \<Rightarrow> u8 \<Rightarrow> world \<Rightarrow> nat \<Rightarrow> bool" where
  "counter_tracks ci tw addr reg w k \<longleftrightarrow>
     uint (millis_value tw (polled (requested addr reg w @ [Millis]) k @ [Available])
           - millis_value tw (requested addr reg w)) < 65536
     \<and> (ci = Int_16bit
        \<or> uint (ucast (millis_value tw (requested addr reg w)) :: u16)
           \<le> uint (ucast (millis_value tw
                 (polled (requested addr reg w @ [Millis]) k @ [Available])) :: u16))"

subsection \<open>Concrete buses and a concrete driver\<close>

text \<open>The register addresses of the LSM6DS33 data sheet.\<close>

definition DS33_regs :: regAddr where
  "DS33_regs = \<lparr>WHO_AM_I = 0x0F, OUTX_L_G = 0x22, OUTX_L_XL = 0x28\<rparr>"

text \<open>
  A driver as the constructor leaves it (\<open>_device\<close> auto, no timeout, flag clear),
  with some earlier readings in the fields the constructor does not set.
\<close>

definition fresh_driver :: LSM6 where
  "fresh_driver =
     \<lparr>a = \<lparr>x = 1, y = 2, z = 3\<rparr>, g = \<lparr>x = 4, y = 5, z = 6\<rparr>, last_status = 0,
      LSM6_device = device_auto, address = 0, io_timeout = 0, did_timeout = False\<rparr>"

text \<open>
  A bus on which no chip answers: every transmission ends with status 2, a byte would
  be readable all the same, and the clock advances by one with every call.
\<close>

definition absent_bus :: TwoWire where
  "absent_bus =
     \<lparr>endTransmission_status = (\<lambda>w. 2), available_count = (\<lambda>w. 1),
      read_byte = (\<lambda>w. 0x69), millis_value = (\<lambda>w. of_nat (length w))\<rparr>"

text \<open>A bus whose transmissions succeed but which never delivers a byte.\<close>

definition silent_bus :: TwoWire where
  "silent_bus =
     \<lparr>endTransmission_status = (\<lambda>w. 0), available_count = (\<lambda>w. 0),
      read_byte = (\<lambda>w. 0), millis_value = (\<lambda>w. of_nat (length w))\<rparr>"

text \<open>
  The same bus with a clock that reads \<open>t0\<close> in the empty world, so that the 16-bit
  counter can be close to its wrap-around when a read starts.
\<close>

definition silent_bus_from :: "nat \<Rightarrow> TwoWire" where
  "silent_bus_from t0 =
     \<lparr>endTransmission_status = (\<lambda>w. 0), available_count = (\<lambda>w. 0),
      read_byte = (\<lambda>w. 0), millis_value = (\<lambda>w. of_nat (t0 + length w))\<rparr>"

text \<open>
  A chip that answers at the low address only: a request to that address is followed
  by data, and every byte it sends is the chip identity.
\<close>

definition low_bus :: TwoWire where
  "low_bus =
     \<lparr>endTransmission_status = (\<lambda>w. 0),
      available_count =
        (\<lambda>w. if w \<noteq> [] \<and> last w = RequestFrom DS33_SA0_LOW_ADDRESS 1 then 1 else 0),
      read_byte = (\<lambda>w. 0x69), millis_value = (\<lambda>w. of_nat (length w))\<rparr>"

text \<open>
  A bus that has the requested block ready from the seventh call on; the bytes it
  sends are \<open>0xFE\<close> and \<open>0xFF\<close> in turn.
\<close>

definition late_bus :: TwoWire where
  "late_bus =
     \<lparr>endTransmission_status = (\<lambda>w. 0),
      available_count = (\<lambda>w. if length w < 7 then 0 else 6),
      read_byte = (\<lambda>w. if even (length w) then 0xFE else 0xFF),
      millis_value = (\<lambda>w. of_nat (length w))\<rparr>"

section \<open>Arithmetic of the conversions\<close>

lemma uint_u8_bounds: "0 \<le> uint (b :: u8) \<and> uint b < 256"
  using uint_bounded [of b] by simp

lemma uint_u16_bounds: "0 \<le> uint (w :: u16) \<and> uint w < 65536"
  using uint_bounded [of w] by simp

lemma combine_32bit_eq_16bit: "combine Int_32bit xh xl = combine Int_16bit xh xl"
  unfolding combine_def
  by (auto simp add: bit_eq_iff bit_simps)

lemma uint_combine: "uint (combine Int_16bit xh xl) = uint xl + 256 * uint xh"
proof -
  have "combine Int_16bit xh xl = (word_cat xh xl :: 16 word)"
    by (simp add: combine_def word_cat_eq_push_bit_or)
  then have "uint (combine Int_16bit xh xl) = take_bit 16 (concat_bit 8 (uint xl) (uint xh))"
    by (simp only: word_cat_eq' uint_word_of_int_eq) simp
  also have "concat_bit 8 (uint xl) (uint xh) = uint xl + 256 * uint xh"
    using uint_u8_bounds [of xl]
    by (simp add: concat_bit_eq take_bit_int_eq_self push_bit_eq_mult)
  also have "take_bit 16 (uint xl + 256 * uint xh) = uint xl + 256 * uint xh"
    using uint_u8_bounds [of xl] uint_u8_bounds [of xh] by (simp add: take_bit_int_eq_self)
  finally show ?thesis .
qed

lemma sint_i16: "sint (w :: i16) = (if uint w < 32768 then uint w else uint w - 65536)"
proof -
  have shift: "sint w = (uint w + 32768) mod 65536 - 32768"
    by (simp add: sint_uint signed_take_bit_eq_take_bit_shift take_bit_eq_mod)
  show ?thesis
  proof (cases "uint w < 32768")
    case True
    then have "(uint w + 32768) mod 65536 = uint w + 32768"
      using uint_u16_bounds [of w] by simp
    with True shift show ?thesis by simp
  next
    case False
    have "uint w + 32768 = uint w - 32768 + 65536"
      by arith
    then have "(uint w + 32768) mod 65536 = (uint w - 32768 + 65536) mod 65536"
      by (rule arg_cong)
    also have "\<dots> = (uint w - 32768) mod 65536"
      by (simp only: mod_add_self2)
    also have "\<dots> = uint w - 32768"
      using False uint_u16_bounds [of w] by simp
    finally show ?thesis using False shift by simp
  qed
qed

lemma elapsed_16bit: "elapsed Int_16bit now start = (uint now - uint start) mod 2 ^ 16"
  by (simp add: elapsed_def uint_word_ariths)

lemma elapsed_32bit: "elapsed Int_32bit now start = uint now - uint start"
proof -
  have up: "sint (ucast v :: 32 word) = uint v" for v :: u16
  proof -
    have "- 2147483648 \<le> uint v" "uint v < 2147483648"
      using uint_u16_bounds [of v] by arith+
    then have "signed_take_bit 31 (uint v) = uint v"
      by (intro signed_take_bit_int_eq_self) simp_all
    then show ?thesis by (simp add: signed_ucast_eq)
  qed
  have "- 2147483648 \<le> uint now - uint start" "uint now - uint start < 2147483648"
    using uint_u16_bounds [of now] uint_u16_bounds [of start] by arith+
  then have "signed_take_bit 31 (uint now - uint start) = uint now - uint start"
    by (intro signed_take_bit_int_eq_self) simp_all
  then show ?thesis
    by (simp add: elapsed_def sint_word_diff up)
qed

lemma timeout_expired_32bit_never:
  assumes "65535 \<le> uint start + uint timeout"
  shows "\<not> timeout_expired Int_32bit timeout m start"
proof -
  have "uint (ucast m :: u16) - uint start \<le> uint timeout"
    using assms uint_u16_bounds [of "ucast m"] by arith
  then show ?thesis
    by (simp add: timeout_expired_def elapsed_32bit)
qed

lemma sint_combine: "sint (combine ci xh xl) = decode_twos_complement xl xh"
proof -
  have "combine ci xh xl = combine Int_16bit xh xl"
    by (cases ci) (simp_all add: combine_32bit_eq_16bit)
  then show ?thesis
    by (simp add: sint_i16 uint_combine decode_twos_complement_def Let_def)
qed

lemma decodes_sample: "decodes tw w (sample ci tw w)"
  by (simp add: decodes_def sample_def sint_combine)

lemma low16_diff:
  "(uint (ucast m :: u16) - uint (ucast m0 :: u16)) mod 65536 = uint (m - m0) mod 65536"
  for m m0 :: u32
proof -
  have "(uint (ucast m :: u16) - uint (ucast m0 :: u16)) mod 65536 =
      (uint m mod 65536 - uint m0 mod 65536) mod 65536"
    by (simp add: unsigned_ucast_eq take_bit_eq_mod)
  also have "\<dots> = (uint m - uint m0) mod 65536"
    by (simp add: mod_diff_eq)
  also have "\<dots> = ((uint m - uint m0) mod 4294967296) mod 65536"
    by (simp add: mod_mod_cancel)
  also have "\<dots> = uint (m - m0) mod 65536"
    by (simp add: uint_word_ariths)
  finally show ?thesis .
qed

lemma timeout_expired_tracked:
  fixes m m0 :: u32
  assumes over: "uint timeout < uint (m - m0)"
    and small: "uint (m - m0) < 65536"
    and nowrap: "ci = Int_16bit \<or> uint (ucast m0 :: u16) \<le> uint (ucast m :: u16)"
  shows "timeout_expired ci timeout m (ucast m0)"
proof -
  have e: "uint (m - m0) mod 65536 = uint (m - m0)"
    using small by simp
  show ?thesis
  proof (cases ci)
    case Int_16bit
    have "elapsed Int_16bit (ucast m) (ucast m0) =
        (uint (ucast m :: u16) - uint (ucast m0 :: u16)) mod 65536"
      by (simp add: elapsed_16bit)
    with low16_diff [of m m0] e over Int_16bit show ?thesis
      by (simp add: timeout_expired_def)
  next
    case Int_32bit
    with nowrap have le: "uint (ucast m0 :: u16) \<le> uint (ucast m :: u16)"
      by simp
    have "uint (ucast m :: u16) - uint (ucast m0 :: u16) < 65536"
      using uint_u16_bounds [of "ucast m"] uint_ge_0 [of "ucast m0 :: u16"] by arith
    with le have "(uint (ucast m :: u16) - uint (ucast m0 :: u16)) mod 65536 =
        uint (ucast m :: u16) - uint (ucast m0 :: u16)"
      by simp
    with low16_diff [of m m0] e over Int_32bit show ?thesis
      by (simp add: timeout_expired_def elapsed_32bit)
  qed
qed

lemma timeout_expired_max: "\<not> timeout_expired ci 65535 m start"
proof (cases ci)
  case Int_16bit
  then show ?thesis
    using uint_u16_bounds [of "ucast m - start"]
    by (simp add: timeout_expired_def elapsed_def)
next
  case Int_32bit
  have "uint (ucast m :: u16) - uint start \<le> 65535"
    using uint_u16_bounds [of "ucast m"] uint_ge_0 [of start] by arith
  with Int_32bit show ?thesis
    by (simp add: timeout_expired_def elapsed_32bit)
qed

section \<open>The elapsed time of the poll loop (C3)\<close>

text \<open>
  With a 16-bit \<open>int\<close> the difference \<open>(uint16_t)millis() - millis_start\<close> is the
  wrap-around difference of claim C3 (lemma \<open>elapsed_16bit\<close>). With a 32-bit \<open>int\<close>
  both operands are promoted to \<open>int\<close> before the subtraction, and the difference is
  negative once the 16-bit counter has wrapped (lemma \<open>elapsed_32bit\<close>).
\<close>

text \<open>
  C3, evaluated on a target with 32-bit \<open>int\<close>: the read starts at counter value
  65535 and \<open>millis()\<close> answers 65636, that is 101 ms later, where the 16-bit counter
  reads 100. The wrap-around difference is 101, the source computes \<open>-65435\<close>, and
  its test against a timeout of 10 ms fails.
\<close>

theorem elapsed_32bit_after_wrap:
  "elapsed Int_32bit (ucast (65636 :: u32)) 65535 = - 65435
   \<and> uint ((ucast (65636 :: u32) :: u16) - 65535) = 101
   \<and> \<not> timeout_expired Int_32bit 10 65636 65535"
  by (simp add: timeout_expired_def elapsed_32bit)

section \<open>The timeout flag (C6)\<close>

text \<open>
  C6. \<open>timeoutOccurred\<close> returns the current value of the timeout flag and clears
  it, changing nothing else; a second call right after the first returns false.
\<close>

theorem timeoutOccurred_read_and_reset:
  "fst (timeoutOccurred drv) = did_timeout drv
   \<and> snd (timeoutOccurred drv) = drv\<lparr>did_timeout := False\<rparr>
   \<and> fst (timeoutOccurred (snd (timeoutOccurred drv))) = False"
  by (simp add: timeoutOccurred_def)

section \<open>Probing a register (C8)\<close>

lemma sint_ucast_u8: "sint (ucast (b :: u8) :: i16) = uint b"
proof -
  have "uint (ucast b :: i16) = uint b"
    using uint_u8_bounds [of b] by (simp add: unsigned_ucast_eq take_bit_int_eq_self)
  then show ?thesis
    using uint_u8_bounds [of b] by (simp add: sint_i16)
qed

lemma sint_TEST_REG_ERROR: "sint TEST_REG_ERROR = - 1"
  by (simp add: TEST_REG_ERROR_def)

lemma testReg_cases:
  "testReg tw addr reg w =
     (if endTransmission_status tw (w @ [BeginTransmission addr, Write reg]) \<noteq> 0
      then (TEST_REG_ERROR, w @ [BeginTransmission addr, Write reg, EndTransmission])
      else if available_count tw
                (w @ [BeginTransmission addr, Write reg, EndTransmission, RequestFrom addr 1]) \<noteq> 0
      then (ucast (read_byte tw
               (w @ [BeginTransmission addr, Write reg, EndTransmission, RequestFrom addr 1,
                     Available])),
            w @ [BeginTransmission addr, Write reg, EndTransmission, RequestFrom addr 1,
                 Available, Read])
      else (TEST_REG_ERROR,
            w @ [BeginTransmission addr, Write reg, EndTransmission, RequestFrom addr 1,
                 Available]))"
  by (simp add: testReg_def beginTransmission_def write_tw_def endTransmission_def
      requestFrom_def available_def read_def)

text \<open>
  C8. When the transaction that writes the register address ends with a nonzero status,
  \<open>testReg\<close> returns the sentinel and the bus sees nothing after \<open>endTransmission\<close>: no
  request, no read. When the write succeeds and no byte is available it returns the
  sentinel too; otherwise it returns the byte read. The sentinel is \<open>-1\<close>, which no
  byte equals.
\<close>

theorem testReg_sentinel:
  "(endTransmission_status tw (w @ [BeginTransmission addr, Write reg]) \<noteq> 0 \<longrightarrow>
      testReg tw addr reg w =
        (TEST_REG_ERROR, w @ [BeginTransmission addr, Write reg, EndTransmission]))
   \<and> (endTransmission_status tw (w @ [BeginTransmission addr, Write reg]) = 0
      \<and> available_count tw
           (w @ [BeginTransmission addr, Write reg, EndTransmission, RequestFrom addr 1]) = 0 \<longrightarrow>
      fst (testReg tw addr reg w) = TEST_REG_ERROR)
   \<and> (endTransmission_status tw (w @ [BeginTransmission addr, Write reg]) = 0
      \<and> available_count tw
           (w @ [BeginTransmission addr, Write reg, EndTransmission, RequestFrom addr 1]) \<noteq> 0 \<longrightarrow>
      sint (fst (testReg tw addr reg w)) =
        uint (read_byte tw
               (w @ [BeginTransmission addr, Write reg, EndTransmission, RequestFrom addr 1,
                     Available])))
   \<and> sint TEST_REG_ERROR = - 1
   \<and> (\<forall>b :: u8. sint TEST_REG_ERROR \<noteq> uint b)"
proof -
  have "sint TEST_REG_ERROR \<noteq> uint b" for b :: u8
    unfolding sint_TEST_REG_ERROR using uint_ge_0 [of b] by arith
  then show ?thesis
    by (simp add: testReg_cases sint_ucast_u8 sint_TEST_REG_ERROR)
qed

theorem testReg_sentinel_witness:
  "endTransmission_status absent_bus ([] @ [BeginTransmission DS33_SA0_HIGH_ADDRESS, Write 0x0F]) \<noteq> 0
   \<and> testReg absent_bus DS33_SA0_HIGH_ADDRESS 0x0F [] =
       (TEST_REG_ERROR, [BeginTransmission DS33_SA0_HIGH_ADDRESS, Write 0x0F, EndTransmission])
   \<and> fst (testReg silent_bus DS33_SA0_HIGH_ADDRESS 0x0F []) = TEST_REG_ERROR
   \<and> sint (fst (testReg low_bus DS33_SA0_LOW_ADDRESS 0x0F [])) = 0x69"
  using testReg_sentinel [of absent_bus "[]" DS33_SA0_HIGH_ADDRESS "0x0F"]
    testReg_sentinel [of silent_bus "[]" DS33_SA0_HIGH_ADDRESS "0x0F"]
    testReg_sentinel [of low_bus "[]" DS33_SA0_LOW_ADDRESS "0x0F"]
  by (simp add: absent_bus_def silent_bus_def low_bus_def)

section \<open>Initialisation (C4, C5, C10)\<close>

lemma probed_Nil: "probed [] = []"
  by (simp add: probed_def)

lemma probed_append: "probed (w @ w') = probed w @ probed w'"
  by (simp add: probed_def)

lemma probed_after_probe: "probed (after_probe tw regs addr w) = probed w @ [addr]"
  by (simp add: after_probe_def testReg_cases probed_def)

lemma detect_cases:
  "detect tw regs device sa0 w =
     (if sa0 \<noteq> sa0_low \<and> probe_matches tw regs DS33_SA0_HIGH_ADDRESS w
      then (device_DS33, sa0_high, after_probe tw regs DS33_SA0_HIGH_ADDRESS w)
      else if sa0 \<noteq> sa0_high
              \<and> probe_matches tw regs DS33_SA0_LOW_ADDRESS
                  (if sa0 \<noteq> sa0_low then after_probe tw regs DS33_SA0_HIGH_ADDRESS w else w)
      then (device_DS33, sa0_low,
            after_probe tw regs DS33_SA0_LOW_ADDRESS
              (if sa0 \<noteq> sa0_low then after_probe tw regs DS33_SA0_HIGH_ADDRESS w else w))
      else (device, sa0,
            if sa0 = sa0_high then after_probe tw regs DS33_SA0_HIGH_ADDRESS w
            else after_probe tw regs DS33_SA0_LOW_ADDRESS
              (if sa0 \<noteq> sa0_low then after_probe tw regs DS33_SA0_HIGH_ADDRESS w else w)))"
  by (cases device; cases sa0)
     (simp_all add: detect_def probe_matches_def after_probe_def split: prod.splits)

lemma init_auto:
  assumes "device = device_auto \<or> sa0 = sa0_auto"
  shows "init tw regs device sa0 (drv, w) =
     (if sa0 \<noteq> sa0_low \<and> probe_matches tw regs DS33_SA0_HIGH_ADDRESS w
      then (True, drv\<lparr>LSM6_device := device_DS33, address := DS33_SA0_HIGH_ADDRESS\<rparr>,
            after_probe tw regs DS33_SA0_HIGH_ADDRESS w)
      else if sa0 \<noteq> sa0_high
              \<and> probe_matches tw regs DS33_SA0_LOW_ADDRESS
                  (if sa0 \<noteq> sa0_low then after_probe tw regs DS33_SA0_HIGH_ADDRESS w else w)
      then (True, drv\<lparr>LSM6_device := device_DS33, address := DS33_SA0_LOW_ADDRESS\<rparr>,
            after_probe tw regs DS33_SA0_LOW_ADDRESS
              (if sa0 \<noteq> sa0_low then after_probe tw regs DS33_SA0_HIGH_ADDRESS w else w))
      else (False, drv,
            if sa0 = sa0_high then after_probe tw regs DS33_SA0_HIGH_ADDRESS w
            else after_probe tw regs DS33_SA0_LOW_ADDRESS
              (if sa0 \<noteq> sa0_low then after_probe tw regs DS33_SA0_HIGH_ADDRESS w else w)))"
  using assms by (cases device; cases sa0) (simp_all add: init_def detect_cases)

lemma init_auto_probed:
  assumes "device = device_auto \<or> sa0 = sa0_auto"
  shows "probed (snd (snd (init tw regs device sa0 (drv, w)))) =
     probed w @
       (if sa0 = sa0_low then [DS33_SA0_LOW_ADDRESS]
        else if sa0 = sa0_high \<or> probe_matches tw regs DS33_SA0_HIGH_ADDRESS w
        then [DS33_SA0_HIGH_ADDRESS]
        else [DS33_SA0_HIGH_ADDRESS, DS33_SA0_LOW_ADDRESS])"
  using assms by (cases sa0) (simp_all add: init_auto probed_after_probe)

lemma probe_low_bus_high: "\<not> probe_matches low_bus DS33_regs DS33_SA0_HIGH_ADDRESS []"
  by (simp add: probe_matches_def testReg_cases low_bus_def DS33_regs_def
      DS33_SA0_HIGH_ADDRESS_def DS33_SA0_LOW_ADDRESS_def sint_TEST_REG_ERROR DS33_WHO_ID_def)

lemma probe_low_bus_low:
  "probe_matches low_bus DS33_regs DS33_SA0_LOW_ADDRESS
     (after_probe low_bus DS33_regs DS33_SA0_HIGH_ADDRESS [])"
  by (simp add: probe_matches_def after_probe_def testReg_cases low_bus_def DS33_regs_def
      DS33_SA0_HIGH_ADDRESS_def DS33_SA0_LOW_ADDRESS_def DS33_WHO_ID_def)

lemma probe_absent_bus: "\<not> probe_matches absent_bus DS33_regs addr w"
  by (simp add: probe_matches_def testReg_cases absent_bus_def sint_TEST_REG_ERROR
      DS33_WHO_ID_def)

lemma detect_low_bus:
  "detect low_bus DS33_regs device_auto sa0_auto [] =
     (device_DS33, sa0_low,
      after_probe low_bus DS33_regs DS33_SA0_LOW_ADDRESS
        (after_probe low_bus DS33_regs DS33_SA0_HIGH_ADDRESS []))"
  by (simp add: detect_cases probe_low_bus_high probe_low_bus_low)

text \<open>
  C4. With \<open>device\<close> and \<open>sa0\<close> both given, \<open>init\<close> leaves the bus untouched,
  returns true and stores the high address for \<open>sa0_high\<close> and the low address for
  \<open>sa0_low\<close>, both 7-bit numbers. An auto-detection that resolves to the same
  \<open>device\<close> and \<open>sa0\<close>, on any bus and from any hints, stores the same driver state,
  hence the same address.
\<close>

theorem init_pinned:
  assumes "device \<noteq> device_auto" and "sa0 \<noteq> sa0_auto"
  shows "init tw regs device sa0 (drv, w) =
      (True,
       drv\<lparr>LSM6_device := device,
           address := (if sa0 = sa0_high then DS33_SA0_HIGH_ADDRESS else DS33_SA0_LOW_ADDRESS)\<rparr>,
       w)
   \<and> unat (if sa0 = sa0_high then DS33_SA0_HIGH_ADDRESS else DS33_SA0_LOW_ADDRESS) < 128
   \<and> (\<forall>tw' d0 s0 w0 w1.
        (d0 = device_auto \<or> s0 = sa0_auto) \<and> detect tw' regs d0 s0 w0 = (device, sa0, w1) \<longrightarrow>
        init tw' regs d0 s0 (drv, w0) =
          (True, fst (snd (init tw regs device sa0 (drv, w))), w1))"
  using assms
  by (cases device; cases sa0)
     (auto simp add: init_def DS33_SA0_HIGH_ADDRESS_def DS33_SA0_LOW_ADDRESS_def)

theorem init_pinned_witness:
  "device_DS33 \<noteq> device_auto \<and> sa0_low \<noteq> sa0_auto
   \<and> init absent_bus DS33_regs device_DS33 sa0_low (fresh_driver, []) =
       (True, fresh_driver\<lparr>LSM6_device := device_DS33, address := DS33_SA0_LOW_ADDRESS\<rparr>, [])
   \<and> detect low_bus DS33_regs device_auto sa0_auto [] =
       (device_DS33, sa0_low,
        snd (snd (init low_bus DS33_regs device_auto sa0_auto (fresh_driver, []))))
   \<and> address (fst (snd (init low_bus DS33_regs device_auto sa0_auto (fresh_driver, [])))) =
       address (fst (snd (init absent_bus DS33_regs device_DS33 sa0_low (fresh_driver, []))))"
proof -
  have pinned: "device_DS33 \<noteq> device_auto" "sa0_low \<noteq> sa0_auto"
    by simp_all
  note pinned_init = init_pinned [OF pinned, of absent_bus DS33_regs fresh_driver "[]"]
  from pinned_init have stored:
    "init absent_bus DS33_regs device_DS33 sa0_low (fresh_driver, []) =
       (True, fresh_driver\<lparr>LSM6_device := device_DS33, address := DS33_SA0_LOW_ADDRESS\<rparr>, [])"
    by simp
  from pinned_init detect_low_bus have
    "init low_bus DS33_regs device_auto sa0_auto (fresh_driver, []) =
       (True, fst (snd (init absent_bus DS33_regs device_DS33 sa0_low (fresh_driver, []))),
        after_probe low_bus DS33_regs DS33_SA0_LOW_ADDRESS
          (after_probe low_bus DS33_regs DS33_SA0_HIGH_ADDRESS []))"
    by blast
  with stored detect_low_bus show ?thesis by simp
qed

text \<open>
  C5. When \<open>device\<close> or \<open>sa0\<close> is auto, \<open>init\<close> probes the high address first,
  unless \<open>sa0\<close> was given as low, and accepts it when the identity register answers
  with the chip identity; otherwise it probes the low address, unless \<open>sa0\<close> was given
  as high, and accepts it on the same condition. An accepted candidate fixes \<open>sa0\<close>,
  the address and the device. When no candidate is accepted \<open>init\<close> returns false.
  The second equation lists the addresses probed, in order.
\<close>

theorem init_detection:
  assumes "device = device_auto \<or> sa0 = sa0_auto"
  shows "init tw regs device sa0 (drv, w) =
     (if sa0 \<noteq> sa0_low \<and> probe_matches tw regs DS33_SA0_HIGH_ADDRESS w
      then (True, drv\<lparr>LSM6_device := device_DS33, address := DS33_SA0_HIGH_ADDRESS\<rparr>,
            after_probe tw regs DS33_SA0_HIGH_ADDRESS w)
      else if sa0 \<noteq> sa0_high
              \<and> probe_matches tw regs DS33_SA0_LOW_ADDRESS
                  (if sa0 \<noteq> sa0_low then after_probe tw regs DS33_SA0_HIGH_ADDRESS w else w)
      then (True, drv\<lparr>LSM6_device := device_DS33, address := DS33_SA0_LOW_ADDRESS\<rparr>,
            after_probe tw regs DS33_SA0_LOW_ADDRESS
              (if sa0 \<noteq> sa0_low then after_probe tw regs DS33_SA0_HIGH_ADDRESS w else w))
      else (False, drv,
            if sa0 = sa0_high then after_probe tw regs DS33_SA0_HIGH_ADDRESS w
            else after_probe tw regs DS33_SA0_LOW_ADDRESS
              (if sa0 \<noteq> sa0_low then after_probe tw regs DS33_SA0_HIGH_ADDRESS w else w)))
   \<and> probed (snd (snd (init tw regs device sa0 (drv, w)))) =
     probed w @
       (if sa0 = sa0_low then [DS33_SA0_LOW_ADDRESS]
        else if sa0 = sa0_high \<or> probe_matches tw regs DS33_SA0_HIGH_ADDRESS w
        then [DS33_SA0_HIGH_ADDRESS]
        else [DS33_SA0_HIGH_ADDRESS, DS33_SA0_LOW_ADDRESS])"
  using init_auto [OF assms] init_auto_probed [OF assms] by blast

theorem init_detection_witness:
  "(device_auto = device_auto \<or> sa0_auto = sa0_auto)
   \<and> fst (init low_bus DS33_regs device_auto sa0_auto (fresh_driver, [])) = True
   \<and> fst (snd (init low_bus DS33_regs device_auto sa0_auto (fresh_driver, []))) =
       fresh_driver\<lparr>LSM6_device := device_DS33, address := DS33_SA0_LOW_ADDRESS\<rparr>
   \<and> probed (snd (snd (init low_bus DS33_regs device_auto sa0_auto (fresh_driver, [])))) =
       [DS33_SA0_HIGH_ADDRESS, DS33_SA0_LOW_ADDRESS]
   \<and> fst (init absent_bus DS33_regs device_auto sa0_auto (fresh_driver, [])) = False"
  using init_detection [of device_auto sa0_auto low_bus DS33_regs fresh_driver "[]"]
    init_detection [of device_auto sa0_auto absent_bus DS33_regs fresh_driver "[]"]
  by (simp add: probe_low_bus_high probe_low_bus_low probe_absent_bus probed_Nil
      probed_after_probe)

text \<open>
  C10. A call of \<open>init\<close> that returns false leaves the whole driver object as it
  was: device type, address, timeout, timeout flag, last status and both vectors.
\<close>

theorem init_failure_atomic:
  "init tw regs device sa0 (drv, w) = (False, drv', w') \<Longrightarrow> drv' = drv"
  by (auto simp add: init_def split: prod.splits if_splits)

theorem init_failure_atomic_witness:
  "init absent_bus DS33_regs device_auto sa0_auto (fresh_driver, []) =
     (False, fresh_driver,
      after_probe absent_bus DS33_regs DS33_SA0_LOW_ADDRESS
        (after_probe absent_bus DS33_regs DS33_SA0_HIGH_ADDRESS []))"
  using init_failure_atomic [of absent_bus DS33_regs device_auto sa0_auto fresh_driver "[]" 
      "fst (snd (init absent_bus DS33_regs device_auto sa0_auto (fresh_driver, [])))"
      "snd (snd (init absent_bus DS33_regs device_auto sa0_auto (fresh_driver, [])))"]
  by (simp add: init_auto probe_absent_bus)

section \<open>The poll loop\<close>

lemma polled_0: "polled w 0 = w"
  by (simp add: polled_def)

lemma polled_Suc: "polled w (Suc k) = polled (w @ [Available, Millis]) k"
  by (simp add: polled_def)

lemma waited_0: "waited w 0 = w"
  by (simp add: waited_def)

lemma waited_Suc: "waited w (Suc k) = waited (w @ [Available]) k"
  by (simp add: waited_def)

lemma length_polled: "length (polled w k) = length w + 2 * k"
  by (induction k arbitrary: w) (simp_all add: polled_0 polled_Suc)

text \<open>
  Partial correctness of the loop is proved by the induction rule of its fixed point: a
  property holds of every result if each unfolding of the body preserves it.
\<close>

lemmas poll_induct = poll.raw_induct [rotated 1, consumes 1, case_names step]

lemma poll_events:
  "poll ci tw T start w = Some r \<Longrightarrow> \<exists>evs. snd r = w @ evs \<and> set evs \<subseteq> {Available, Millis}"
proof (induction rule: poll_induct)
  case (step f ci tw T start w r)
  note IH = step.IH and eq = step.hyps
  show ?case
  proof (cases "available_count tw w < 6")
    case False
    with eq have "snd r = w @ [Available]"
      by (auto simp add: available_def)
    then show ?thesis by simp
  next
    case av: True
    show ?thesis
    proof (cases "0 < T \<and> timeout_expired ci T (millis_value tw (w @ [Available])) start")
      case True
      with av eq have "snd r = w @ [Available, Millis]"
        by (auto simp add: available_def millis_def)
      then show ?thesis by simp
    next
      case False
      with av eq have "f ci tw T start (w @ [Available]) = Some r
          \<or> f ci tw T start (w @ [Available, Millis]) = Some r"
        by (auto simp add: available_def millis_def split: if_splits)
      then obtain evs where "snd r = w @ [Available] @ evs \<or> snd r = w @ [Available, Millis] @ evs"
        and "set evs \<subseteq> {Available, Millis}"
        using IH by fastforce
      then have "(snd r = w @ (Available # evs) \<and> set (Available # evs) \<subseteq> {Available, Millis})
        \<or> (snd r = w @ (Available # Millis # evs) \<and> set (Available # Millis # evs) \<subseteq> {Available, Millis})"
        by auto
      then show ?thesis by blast
    qed
  qed
qed

lemma poll_no_timeout:
  "poll ci tw T start w = Some r \<Longrightarrow> T = 0 \<longrightarrow> \<not> fst r"
proof (induction rule: poll_induct)
  case (step f ci tw T start w r)
  note IH = step.IH and eq = step.hyps
  show ?case
  proof (cases "available_count tw w < 6")
    case False
    with eq show ?thesis
      by (auto simp add: available_def)
  next
    case True
    show ?thesis
    proof
      assume T: "T = 0"
      with True eq have "f ci tw T start (w @ [Available]) = Some r"
        by (simp add: available_def)
      from IH [OF this] T show "\<not> fst r" by simp
    qed
  qed
qed

lemma poll_zero_not_timeout: "poll ci tw 0 start w \<noteq> Some (True, w')"
  using poll_no_timeout [of ci tw 0 start w "(True, w')"] by auto

lemma poll_wait_forever:
  "poll ci tw T start w = Some r \<Longrightarrow> T = 0 \<longrightarrow> (\<exists>j. 6 \<le> available_count tw (waited w j))"
proof (induction rule: poll_induct)
  case (step f ci tw T start w r)
  note IH = step.IH and eq = step.hyps
  show ?case
  proof (cases "available_count tw w < 6")
    case False
    then have "6 \<le> available_count tw (waited w 0)" by (simp add: waited_0)
    then show ?thesis by blast
  next
    case True
    show ?thesis
    proof
      assume T: "T = 0"
      with True eq have "f ci tw T start (w @ [Available]) = Some r"
        by (simp add: available_def)
      from IH [OF this] T obtain j where "6 \<le> available_count tw (waited (w @ [Available]) j)"
        by blast
      then have "6 \<le> available_count tw (waited w (Suc j))" by (simp add: waited_Suc)
      then show "\<exists>j. 6 \<le> available_count tw (waited w j)" ..
    qed
  qed
qed

lemma poll_wait_ready:
  "(\<forall>j<k. available_count tw (waited w j) < 6) \<Longrightarrow> 6 \<le> available_count tw (waited w k) \<Longrightarrow>
     poll ci tw 0 start w = Some (False, waited w (Suc k))"
proof (induction k arbitrary: w)
  case 0
  then show ?case
    by (subst poll.simps) (simp add: available_def waited_def)
next
  case (Suc k)
  from Suc.prems(1) have av: "available_count tw w < 6"
    by (metis waited_0 zero_less_Suc)
  then have step: "poll ci tw 0 start w = poll ci tw 0 start (w @ [Available])"
    by (subst poll.simps) (simp add: available_def)
  have "\<forall>j<k. available_count tw (waited (w @ [Available]) j) < 6"
    using Suc.prems(1) by (metis waited_Suc Suc_less_eq)
  moreover have "6 \<le> available_count tw (waited (w @ [Available]) k)"
    using Suc.prems(2) by (simp add: waited_Suc)
  ultimately have "poll ci tw 0 start (w @ [Available]) = Some (False, waited (w @ [Available]) (Suc k))"
    by (rule Suc.IH)
  with step show ?case by (simp add: waited_Suc)
qed

lemma poll_timeout_at:
  assumes "0 < T"
  shows "(\<forall>j\<le>k. available_count tw (polled w j) < 6) \<Longrightarrow>
     timeout_expired ci T (millis_value tw (polled w k @ [Available])) start \<Longrightarrow>
     \<exists>k'\<le>k. poll ci tw T start w = Some (True, polled w (Suc k'))"
proof (induction k arbitrary: w)
  case 0
  then have "poll ci tw T start w = Some (True, polled w (Suc 0))"
    using assms by (subst poll.simps) (simp add: available_def millis_def polled_def)
  then show ?case by blast
next
  case (Suc k)
  from Suc.prems(1) have av: "available_count tw w < 6"
    by (metis polled_0 le0)
  show ?case
  proof (cases "timeout_expired ci T (millis_value tw (w @ [Available])) start")
    case True
    with av assms have "poll ci tw T start w = Some (True, polled w (Suc 0))"
      by (subst poll.simps) (simp add: available_def millis_def polled_def)
    then show ?thesis by blast
  next
    case False
    with av assms have step: "poll ci tw T start w = poll ci tw T start (w @ [Available, Millis])"
      by (subst poll.simps) (simp add: available_def millis_def)
    have "\<forall>j\<le>k. available_count tw (polled (w @ [Available, Millis]) j) < 6"
      using Suc.prems(1) by (metis polled_Suc Suc_le_mono)
    moreover have "timeout_expired ci T (millis_value tw (polled (w @ [Available, Millis]) k @ [Available])) start"
      using Suc.prems(2) by (simp add: polled_Suc)
    ultimately obtain k' where "k' \<le> k"
      "poll ci tw T start (w @ [Available, Millis]) = Some (True, polled (w @ [Available, Millis]) (Suc k'))"
      using Suc.IH by blast
    then have "Suc k' \<le> Suc k" "poll ci tw T start w = Some (True, polled w (Suc (Suc k')))"
      using step by (simp_all add: polled_Suc)
    then show ?thesis by blast
  qed
qed

lemma poll_last:
  assumes "poll ci tw T start (w @ [Millis]) = Some r"
  shows "last (snd r) \<noteq> Read"
proof -
  from poll_events [OF assms] obtain evs
    where r: "snd r = (w @ [Millis]) @ evs" and evs: "set evs \<subseteq> {Available, Millis}"
    by blast
  show ?thesis
  proof (cases "evs = []")
    case True
    with r show ?thesis by simp
  next
    case False
    then have "last evs \<in> set evs" by simp
    with evs have "last evs \<noteq> Read" by auto
    with False r show ?thesis by simp
  qed
qed

lemma poll_never_expires:
  "poll ci tw T start w = Some r \<Longrightarrow>
     (\<forall>m. \<not> timeout_expired ci T m start) \<longrightarrow> (\<exists>evs. 6 \<le> available_count tw (w @ evs))"
proof (induction rule: poll_induct)
  case (step f ci tw T start w r)
  note IH = step.IH and eq = step.hyps
  show ?case
  proof (cases "available_count tw w < 6")
    case False
    then have "6 \<le> available_count tw (w @ [])" by simp
    then show ?thesis by blast
  next
    case True
    show ?thesis
    proof
      assume never: "\<forall>m. \<not> timeout_expired ci T m start"
      with True eq have "f ci tw T start (w @ [Available, Millis]) = Some r
          \<or> f ci tw T start (w @ [Available]) = Some r"
        by (auto simp add: available_def millis_def split: if_splits)
      with IH never obtain evs
        where "6 \<le> available_count tw ((w @ [Available, Millis]) @ evs)
          \<or> 6 \<le> available_count tw ((w @ [Available]) @ evs)"
        by blast
      then have "6 \<le> available_count tw (w @ ([Available, Millis] @ evs))
          \<or> 6 \<le> available_count tw (w @ ([Available] @ evs))"
        by simp
      then show "\<exists>evs. 6 \<le> available_count tw (w @ evs)" by blast
    qed
  qed
qed

section \<open>Reading a block\<close>

text \<open>
  Both reads are the request, the loop, and then either the flag or six reads.
\<close>

lemma readAcc_unfold:
  "readAcc ci tw regs (drv, w) =
     (case poll ci tw (io_timeout drv)
             (ucast (millis_value tw (requested (address drv) (OUTX_L_XL regs) w)))
             (requested (address drv) (OUTX_L_XL regs) w @ [Millis]) of
        None \<Rightarrow> None
      | Some (True, w6) \<Rightarrow> Some (drv\<lparr>did_timeout := True\<rparr>, w6)
      | Some (False, w6) \<Rightarrow>
          Some (drv\<lparr>a := sample ci tw w6\<rparr>, w6 @ replicate 6 Read))"
  by (simp add: readAcc_def beginTransmission_def write_tw_def endTransmission_def
      requestFrom_def millis_def read_def requested_def sample_def eval_nat_numeral
      split: option.split bool.split prod.split)

lemma readGyro_unfold:
  "readGyro ci tw regs (drv, w) =
     (case poll ci tw (io_timeout drv)
             (ucast (millis_value tw (requested (address drv) (OUTX_L_G regs) w)))
             (requested (address drv) (OUTX_L_G regs) w @ [Millis]) of
        None \<Rightarrow> None
      | Some (True, w6) \<Rightarrow> Some (drv\<lparr>did_timeout := True\<rparr>, w6)
      | Some (False, w6) \<Rightarrow>
          Some (drv\<lparr>g := sample ci tw w6\<rparr>, w6 @ replicate 6 Read))"
  by (simp add: readGyro_def beginTransmission_def write_tw_def endTransmission_def
      requestFrom_def millis_def read_def requested_def sample_def eval_nat_numeral
      split: option.split bool.split prod.split)

lemma poll_timeout_events:
  assumes "poll ci tw T start (requested addr reg w @ [Millis]) = Some (b, w6)"
  shows "\<exists>evs. w6 = w @ evs \<and> Read \<notin> set evs"
proof -
  from poll_events [OF assms] obtain evs
    where "w6 = (requested addr reg w @ [Millis]) @ evs" and "set evs \<subseteq> {Available, Millis}"
    by auto
  then have "w6 = w @ ([BeginTransmission addr, Write reg, EndTransmission, RequestFrom addr 6,
        Millis] @ evs)"
    and "Read \<notin> set ([BeginTransmission addr, Write reg, EndTransmission, RequestFrom addr 6,
        Millis] @ evs)"
    by (auto simp add: requested_def)
  then show ?thesis by blast
qed

lemma poll_times_out:
  assumes "0 < T" and "times_out_at ci tw T addr reg w k"
  shows "\<exists>evs. poll ci tw T (ucast (millis_value tw (requested addr reg w)))
            (requested addr reg w @ [Millis]) = Some (True, w @ evs) \<and> Read \<notin> set evs"
proof -
  from assms(2) obtain k' where
    eq: "poll ci tw T (ucast (millis_value tw (requested addr reg w)))
       (requested addr reg w @ [Millis]) = Some (True, polled (requested addr reg w @ [Millis]) (Suc k'))"
    using poll_timeout_at [OF assms(1)] unfolding times_out_at_def by blast
  from poll_timeout_events [OF eq] eq show ?thesis by auto
qed

lemma poll_never_ready:
  assumes "\<forall>k. \<not> ready_at tw addr reg w k"
  shows "poll ci tw 0 start (requested addr reg w @ [Millis]) = None"
proof (rule ccontr)
  let ?w5 = "requested addr reg w @ [Millis]"
  let ?ready = "\<lambda>j. 6 \<le> available_count tw (waited ?w5 j)"
  assume "poll ci tw 0 start ?w5 \<noteq> None"
  then obtain r where "poll ci tw 0 start ?w5 = Some r"
    by blast
  from poll_wait_forever [OF this] obtain j where j: "?ready j"
    by blast
  define k where "k = (LEAST j. ?ready j)"
  have "?ready k"
    unfolding k_def using j by (rule LeastI)
  moreover have "\<forall>i<k. available_count tw (waited ?w5 i) < 6"
  proof (intro allI impI)
    fix i assume "i < k"
    then have "\<not> ?ready i"
      unfolding k_def by (rule not_less_Least)
    then show "available_count tw (waited ?w5 i) < 6" by simp
  qed
  ultimately have "ready_at tw addr reg w k"
    by (simp add: ready_at_def)
  with assms show False by blast
qed

lemma poll_ready:
  assumes "ready_at tw addr reg w k"
  shows "poll ci tw 0 start (requested addr reg w @ [Millis]) =
     Some (False, waited (requested addr reg w @ [Millis]) (Suc k))"
  using assms unfolding ready_at_def by (intro poll_wait_ready) simp_all

lemma readAcc_ready:
  assumes "io_timeout drv = 0" and "ready_at tw (address drv) (OUTX_L_XL regs) w k"
  shows "readAcc ci tw regs (drv, w) =
     Some (drv\<lparr>a := sample ci tw (waited (requested (address drv) (OUTX_L_XL regs) w @ [Millis]) (Suc k))\<rparr>,
           waited (requested (address drv) (OUTX_L_XL regs) w @ [Millis]) (Suc k) @ replicate 6 Read)"
  by (simp add: readAcc_unfold assms(1) poll_ready [OF assms(2)])

lemma readGyro_ready:
  assumes "io_timeout drv = 0" and "ready_at tw (address drv) (OUTX_L_G regs) w k"
  shows "readGyro ci tw regs (drv, w) =
     Some (drv\<lparr>g := sample ci tw (waited (requested (address drv) (OUTX_L_G regs) w @ [Millis]) (Suc k))\<rparr>,
           waited (requested (address drv) (OUTX_L_G regs) w @ [Millis]) (Suc k) @ replicate 6 Read)"
  by (simp add: readGyro_unfold assms(1) poll_ready [OF assms(2)])

subsection \<open>The concrete buses\<close>

lemma silent_bus_times_out:
  "times_out_at ci silent_bus 2 addr reg [] (Suc 0)"
  by (cases ci)
     (simp_all add: times_out_at_def silent_bus_def polled_def requested_def
       timeout_expired_def elapsed_def)

lemma late_bus_ready: "ready_at late_bus addr reg [] 2"
  by (simp add: ready_at_def late_bus_def waited_def requested_def)

lemma silent_bus_never_ready: "\<not> ready_at silent_bus addr reg w k"
  by (simp add: ready_at_def silent_bus_def)

text \<open>
  On the late bus both reads return in the third round. The bytes arrive low byte
  first: \<open>0xFE\<close>, \<open>0xFF\<close> make \<open>-2\<close> on each axis.
\<close>

lemma readAcc_late_bus:
  "readAcc ci late_bus DS33_regs (fresh_driver, []) =
     Some (fresh_driver\<lparr>a := \<lparr>x = - 2, y = - 2, z = - 2\<rparr>\<rparr>,
       [BeginTransmission 0, Write 0x28, EndTransmission, RequestFrom 0 6, Millis,
        Available, Available, Available, Read, Read, Read, Read, Read, Read])"
proof -
  have T: "io_timeout fresh_driver = 0" by (simp add: fresh_driver_def)
  have "readAcc ci late_bus DS33_regs (fresh_driver, []) = 
     Some (fresh_driver\<lparr>a := sample ci late_bus [BeginTransmission 0, Write 0x28, EndTransmission, RequestFrom 0 6, Millis,
        Available, Available, Available]\<rparr>,
       [BeginTransmission 0, Write 0x28, EndTransmission, RequestFrom 0 6, Millis,
        Available, Available, Available, Read, Read, Read, Read, Read, Read])"
    using readAcc_ready [OF T late_bus_ready, of ci] 
    by (simp add: waited_def requested_def eval_nat_numeral fresh_driver_def DS33_regs_def)
  moreover have "combine ci 0xFF 0xFE = - 2"
    by (cases ci) (simp_all add: combine_def)
  ultimately show ?thesis
    by (simp add: sample_def late_bus_def)
qed

lemma readGyro_late_bus:
  "readGyro ci late_bus DS33_regs (fresh_driver, []) =
     Some (fresh_driver\<lparr>g := \<lparr>x = - 2, y = - 2, z = - 2\<rparr>\<rparr>,
       [BeginTransmission 0, Write 0x22, EndTransmission, RequestFrom 0 6, Millis,
        Available, Available, Available, Read, Read, Read, Read, Read, Read])"
proof -
  have T: "io_timeout fresh_driver = 0" by (simp add: fresh_driver_def)
  have "readGyro ci late_bus DS33_regs (fresh_driver, []) =
     Some (fresh_driver\<lparr>g := sample ci late_bus
             [BeginTransmission 0, Write 0x22, EndTransmission, RequestFrom 0 6, Millis,
              Available, Available, Available]\<rparr>,
       [BeginTransmission 0, Write 0x22, EndTransmission, RequestFrom 0 6, Millis,
        Available, Available, Available, Read, Read, Read, Read, Read, Read])"
    using readGyro_ready [OF T late_bus_ready, of ci]
    by (simp add: waited_def requested_def eval_nat_numeral fresh_driver_def DS33_regs_def)
  moreover have "combine ci 0xFF 0xFE = - 2"
    by (cases ci) (simp_all add: combine_def)
  ultimately show ?thesis
    by (simp add: sample_def late_bus_def)
qed

subsection \<open>The values stored (C1)\<close>

lemma readAcc_consumed:
  assumes "readAcc ci tw regs (drv, w) = Some (drv', w')" and "last w' = Read"
  shows "\<exists>w6. w' = w6 @ replicate 6 Read \<and> decodes tw w6 (a drv')"
proof (cases "poll ci tw (io_timeout drv)
    (ucast (millis_value tw (requested (address drv) (OUTX_L_XL regs) w)))
    (requested (address drv) (OUTX_L_XL regs) w @ [Millis])")
  case None
  with assms(1) show ?thesis by (simp add: readAcc_unfold)
next
  case (Some r)
  obtain b w6 where r: "r = (b, w6)" by (cases r)
  show ?thesis
  proof (cases b)
    case True
    with Some r assms(1) have "w' = w6" by (simp add: readAcc_unfold)
    with poll_last [OF Some] r assms(2) show ?thesis by simp
  next
    case False
    with Some r assms(1) have "w' = w6 @ replicate 6 Read" "a drv' = sample ci tw w6"
      by (auto simp add: readAcc_unfold)
    then show ?thesis using decodes_sample by auto
  qed
qed

lemma readGyro_consumed:
  assumes "readGyro ci tw regs (drv, w) = Some (drv', w')" and "last w' = Read"
  shows "\<exists>w6. w' = w6 @ replicate 6 Read \<and> decodes tw w6 (g drv')"
proof (cases "poll ci tw (io_timeout drv)
    (ucast (millis_value tw (requested (address drv) (OUTX_L_G regs) w)))
    (requested (address drv) (OUTX_L_G regs) w @ [Millis])")
  case None
  with assms(1) show ?thesis by (simp add: readGyro_unfold)
next
  case (Some r)
  obtain b w6 where r: "r = (b, w6)" by (cases r)
  show ?thesis
  proof (cases b)
    case True
    with Some r assms(1) have "w' = w6" by (simp add: readGyro_unfold)
    with poll_last [OF Some] r assms(2) show ?thesis by simp
  next
    case False
    with Some r assms(1) have "w' = w6 @ replicate 6 Read" "g drv' = sample ci tw w6"
      by (auto simp add: readGyro_unfold)
    then show ?thesis using decodes_sample by auto
  qed
qed

text \<open>
  C1. For every low byte \<open>xl\<close> and high byte \<open>xh\<close>, \<open>(int16_t)(xh << 8 | xl)\<close> read
  as a signed 16-bit integer is the two's-complement decoding of the pair, at either
  width of \<open>int\<close>; and this is the value \<open>readAcc\<close> and \<open>readGyro\<close> store per axis.
  When the loop ends with six bytes available in world \<open>w6\<close>, \<open>readAcc\<close> reads six
  bytes and returns the driver whose vector \<open>a\<close> holds the decoding of the first two
  in \<open>x\<close>, the next two in \<open>y\<close> and the last two in \<open>z\<close>, low byte first. Conversely,
  whenever \<open>readAcc\<close> returns having read from the bus, it has read exactly six bytes
  and \<open>a\<close> holds their decoding. The same holds of \<open>readGyro\<close> and \<open>g\<close>.
\<close>

theorem read_stores_twos_complement:
  "(\<forall>xl xh. sint (combine ci xh xl) = decode_twos_complement xl xh)
   \<and> (poll ci tw (io_timeout drv)
         (ucast (millis_value tw (requested (address drv) (OUTX_L_XL regs) w)))
         (requested (address drv) (OUTX_L_XL regs) w @ [Millis]) = Some (False, w6) \<longrightarrow>
       (\<exists>v. readAcc ci tw regs (drv, w) = Some (drv\<lparr>a := v\<rparr>, w6 @ replicate 6 Read)
          \<and> decodes tw w6 v))
   \<and> (readAcc ci tw regs (drv, w) = Some (drv', w') \<and> last w' = Read \<longrightarrow>
       (\<exists>w6. w' = w6 @ replicate 6 Read \<and> decodes tw w6 (a drv')))
   \<and> (poll ci tw (io_timeout drv)
         (ucast (millis_value tw (requested (address drv) (OUTX_L_G regs) w)))
         (requested (address drv) (OUTX_L_G regs) w @ [Millis]) = Some (False, w6) \<longrightarrow>
       (\<exists>v. readGyro ci tw regs (drv, w) = Some (drv\<lparr>g := v\<rparr>, w6 @ replicate 6 Read)
          \<and> decodes tw w6 v))
   \<and> (readGyro ci tw regs (drv, w) = Some (drv', w') \<and> last w' = Read \<longrightarrow>
       (\<exists>w6. w' = w6 @ replicate 6 Read \<and> decodes tw w6 (g drv')))"
proof (intro conjI impI allI)
  fix xl xh show "sint (combine ci xh xl) = decode_twos_complement xl xh"
    by (rule sint_combine)
next
  assume "poll ci tw (io_timeout drv)
         (ucast (millis_value tw (requested (address drv) (OUTX_L_XL regs) w)))
         (requested (address drv) (OUTX_L_XL regs) w @ [Millis]) = Some (False, w6)"
  then have "readAcc ci tw regs (drv, w) =
      Some (drv\<lparr>a := sample ci tw w6\<rparr>, w6 @ replicate 6 Read)"
    by (simp add: readAcc_unfold)
  with decodes_sample
  show "\<exists>v. readAcc ci tw regs (drv, w) = Some (drv\<lparr>a := v\<rparr>, w6 @ replicate 6 Read)
      \<and> decodes tw w6 v"
    by blast
next
  assume "readAcc ci tw regs (drv, w) = Some (drv', w') \<and> last w' = Read"
  then show "\<exists>w6. w' = w6 @ replicate 6 Read \<and> decodes tw w6 (a drv')"
    using readAcc_consumed by blast
next
  assume "poll ci tw (io_timeout drv)
         (ucast (millis_value tw (requested (address drv) (OUTX_L_G regs) w)))
         (requested (address drv) (OUTX_L_G regs) w @ [Millis]) = Some (False, w6)"
  then have "readGyro ci tw regs (drv, w) =
      Some (drv\<lparr>g := sample ci tw w6\<rparr>, w6 @ replicate 6 Read)"
    by (simp add: readGyro_unfold)
  with decodes_sample
  show "\<exists>v. readGyro ci tw regs (drv, w) = Some (drv\<lparr>g := v\<rparr>, w6 @ replicate 6 Read)
      \<and> decodes tw w6 v"
    by blast
next
  assume "readGyro ci tw regs (drv, w) = Some (drv', w') \<and> last w' = Read"
  then show "\<exists>w6. w' = w6 @ replicate 6 Read \<and> decodes tw w6 (g drv')"
    using readGyro_consumed by blast
qed

theorem read_stores_twos_complement_witness:
  "readAcc Int_32bit late_bus DS33_regs (fresh_driver, []) =
     Some (fresh_driver\<lparr>a := \<lparr>x = - 2, y = - 2, z = - 2\<rparr>\<rparr>,
       [BeginTransmission 0, Write 0x28, EndTransmission, RequestFrom 0 6, Millis,
        Available, Available, Available] @ replicate 6 Read)
   \<and> last ([BeginTransmission 0, Write 0x28, EndTransmission, RequestFrom 0 6, Millis,
        Available, Available, Available] @ replicate 6 Read) = Read
   \<and> decodes late_bus
       [BeginTransmission 0, Write 0x28, EndTransmission, RequestFrom 0 6, Millis,
        Available, Available, Available]
       \<lparr>x = - 2, y = - 2, z = - 2\<rparr>
   \<and> decode_twos_complement 0xFE 0xFF = - 2"
proof -
  let ?w6 = "[BeginTransmission 0, Write 0x28, EndTransmission, RequestFrom 0 6, Millis,
        Available, Available, Available]"
  let ?d = "fresh_driver\<lparr>a := \<lparr>x = - 2, y = - 2, z = - 2\<rparr>\<rparr>"
  have acc: "readAcc Int_32bit late_bus DS33_regs (fresh_driver, []) =
      Some (?d, ?w6 @ replicate 6 Read)"
    using readAcc_late_bus [of Int_32bit] by (simp add: eval_nat_numeral)
  have l: "last (?w6 @ replicate 6 Read) = Read"
    by (simp add: eval_nat_numeral)
  from read_stores_twos_complement
    [of Int_32bit late_bus fresh_driver DS33_regs "[]" _ ?d "?w6 @ replicate 6 Read"] acc l
  obtain w6 where "?w6 @ replicate 6 Read = w6 @ replicate 6 Read"
    and "decodes late_bus w6 (a ?d)"
    by blast
  then have "decodes late_bus ?w6 \<lparr>x = - 2, y = - 2, z = - 2\<rparr>"
    by simp
  moreover have "decode_twos_complement 0xFE 0xFF = - 2"
    by (simp add: decode_twos_complement_def)
  ultimately show ?thesis
    using acc l by blast
qed

subsection \<open>Timeout (C2)\<close>

text \<open>
  What the timeout branch does, stated with the timeout test of the source.
\<close>

lemma read_times_out:
  assumes "0 < io_timeout drv"
  shows
    "(times_out_at ci tw (io_timeout drv) (address drv) (OUTX_L_XL regs) w k \<longrightarrow>
        (\<exists>evs. readAcc ci tw regs (drv, w) = Some (drv\<lparr>did_timeout := True\<rparr>, w @ evs)
           \<and> Read \<notin> set evs))
     \<and> (times_out_at ci tw (io_timeout drv) (address drv) (OUTX_L_G regs) w k \<longrightarrow>
        (\<exists>evs. readGyro ci tw regs (drv, w) = Some (drv\<lparr>did_timeout := True\<rparr>, w @ evs)
           \<and> Read \<notin> set evs))"
  using poll_times_out [OF assms, of ci tw "address drv" "OUTX_L_XL regs" w k]
    poll_times_out [OF assms, of ci tw "address drv" "OUTX_L_G regs" w k]
  by (auto simp add: readAcc_unfold readGyro_unfold)

lemma overdue_times_out:
  assumes "overdue_at tw timeout addr reg w k" and "counter_tracks ci tw addr reg w k"
  shows "times_out_at ci tw timeout addr reg w k"
  using assms unfolding overdue_at_def counter_tracks_def times_out_at_def
  by (auto intro: timeout_expired_tracked)

lemma silent_bus_overdue:
  "overdue_at silent_bus 65535 addr reg [] 40000"
  by (simp add: overdue_at_def silent_bus_def length_polled requested_def)

lemma read_silent_bus_max:
  "readAcc ci silent_bus DS33_regs (fresh_driver\<lparr>io_timeout := 65535\<rparr>, []) = None"
  "readGyro ci silent_bus DS33_regs (fresh_driver\<lparr>io_timeout := 65535\<rparr>, []) = None"
proof -
  have "poll ci silent_bus 65535 start w = None" for start w
  proof (rule ccontr)
    assume "poll ci silent_bus 65535 start w \<noteq> None"
    then obtain r where "poll ci silent_bus 65535 start w = Some r"
      by blast
    from poll_never_expires [OF this] show False
      by (simp add: timeout_expired_max silent_bus_def)
  qed
  then show "readAcc ci silent_bus DS33_regs (fresh_driver\<lparr>io_timeout := 65535\<rparr>, []) = None"
    "readGyro ci silent_bus DS33_regs (fresh_driver\<lparr>io_timeout := 65535\<rparr>, []) = None"
    by (simp_all add: readAcc_unfold readGyro_unfold)
qed

lemma silent_bus_overdue_2: "overdue_at silent_bus 2 addr reg [] (Suc 0)"
  by (simp add: overdue_at_def silent_bus_def length_polled requested_def)

lemma silent_bus_tracks: "counter_tracks ci silent_bus addr reg [] (Suc 0)"
  by (simp add: counter_tracks_def silent_bus_def length_polled requested_def)

text \<open>
  C2 as claimed fails: with \<open>io_timeout = 65535\<close> no difference of 16-bit counter
  values exceeds the timeout. On the silent bus the read is overdue in round 40000
  (80002 ms have passed), yet it does not return, at either width of \<open>int\<close>.
\<close>

theorem read_timeout_max_never_returns:
  "0 < io_timeout (fresh_driver\<lparr>io_timeout := 65535\<rparr>)
   \<and> overdue_at silent_bus (io_timeout (fresh_driver\<lparr>io_timeout := 65535\<rparr>))
       (address (fresh_driver\<lparr>io_timeout := 65535\<rparr>)) (OUTX_L_XL DS33_regs) [] 40000
   \<and> readAcc Int_16bit silent_bus DS33_regs (fresh_driver\<lparr>io_timeout := 65535\<rparr>, []) = None
   \<and> readAcc Int_32bit silent_bus DS33_regs (fresh_driver\<lparr>io_timeout := 65535\<rparr>, []) = None"
  by (simp add: silent_bus_overdue read_silent_bus_max)

text \<open>
  C2, amended. With a timeout \<open>T > 0\<close> configured, if a \<open>readAcc\<close> (or \<open>readGyro\<close>) is
  overdue in some round, that is, fewer than six bytes have been available in every
  round so far and more than \<open>T\<close> ms have passed on the clock since the read started,
  and the 16-bit counter can show that time (it is below \<open>2^16\<close> ms and, where \<open>int\<close>
  has 32 bits, the counter has not wrapped since the start), then the call returns; the
  driver it returns is the old one with the timeout flag set, so the result vector is
  the one from before the call; and no \<open>read\<close> is among the calls it made on the bus.
  Nothing is said here of a 32-bit \<open>int\<close> after the counter has wrapped: that is the
  subject of C3.
\<close>

theorem read_timeout_overdue:
  assumes "0 < io_timeout drv"
  shows
    "(overdue_at tw (io_timeout drv) (address drv) (OUTX_L_XL regs) w k
        \<and> counter_tracks ci tw (address drv) (OUTX_L_XL regs) w k \<longrightarrow>
        (\<exists>drv' evs. readAcc ci tw regs (drv, w) = Some (drv', w @ evs)
           \<and> drv' = drv\<lparr>did_timeout := True\<rparr> \<and> did_timeout drv' \<and> a drv' = a drv
           \<and> Read \<notin> set evs))
     \<and> (overdue_at tw (io_timeout drv) (address drv) (OUTX_L_G regs) w k
        \<and> counter_tracks ci tw (address drv) (OUTX_L_G regs) w k \<longrightarrow>
        (\<exists>drv' evs. readGyro ci tw regs (drv, w) = Some (drv', w @ evs)
           \<and> drv' = drv\<lparr>did_timeout := True\<rparr> \<and> did_timeout drv' \<and> g drv' = g drv
           \<and> Read \<notin> set evs))"
proof (intro conjI impI)
  assume "overdue_at tw (io_timeout drv) (address drv) (OUTX_L_XL regs) w k
        \<and> counter_tracks ci tw (address drv) (OUTX_L_XL regs) w k"
  then have "times_out_at ci tw (io_timeout drv) (address drv) (OUTX_L_XL regs) w k"
    by (simp add: overdue_times_out)
  with read_times_out [OF assms, of ci tw regs w k]
  show "\<exists>drv' evs. readAcc ci tw regs (drv, w) = Some (drv', w @ evs)
           \<and> drv' = drv\<lparr>did_timeout := True\<rparr> \<and> did_timeout drv' \<and> a drv' = a drv
           \<and> Read \<notin> set evs"
    by auto
next
  assume "overdue_at tw (io_timeout drv) (address drv) (OUTX_L_G regs) w k
        \<and> counter_tracks ci tw (address drv) (OUTX_L_G regs) w k"
  then have "times_out_at ci tw (io_timeout drv) (address drv) (OUTX_L_G regs) w k"
    by (simp add: overdue_times_out)
  with read_times_out [OF assms, of ci tw regs w k]
  show "\<exists>drv' evs. readGyro ci tw regs (drv, w) = Some (drv', w @ evs)
           \<and> drv' = drv\<lparr>did_timeout := True\<rparr> \<and> did_timeout drv' \<and> g drv' = g drv
           \<and> Read \<notin> set evs"
    by auto
qed

theorem read_timeout_overdue_witness:
  "0 < io_timeout (fresh_driver\<lparr>io_timeout := 2\<rparr>)
   \<and> overdue_at silent_bus (io_timeout (fresh_driver\<lparr>io_timeout := 2\<rparr>))
       (address (fresh_driver\<lparr>io_timeout := 2\<rparr>)) (OUTX_L_XL DS33_regs) [] (Suc 0)
   \<and> counter_tracks Int_32bit silent_bus
       (address (fresh_driver\<lparr>io_timeout := 2\<rparr>)) (OUTX_L_XL DS33_regs) [] (Suc 0)
   \<and> (\<exists>evs. readAcc Int_32bit silent_bus DS33_regs (fresh_driver\<lparr>io_timeout := 2\<rparr>, []) =
         Some (fresh_driver\<lparr>io_timeout := 2, did_timeout := True\<rparr>, evs) \<and> Read \<notin> set evs)
   \<and> (\<exists>evs. readGyro Int_32bit silent_bus DS33_regs (fresh_driver\<lparr>io_timeout := 2\<rparr>, []) =
         Some (fresh_driver\<lparr>io_timeout := 2, did_timeout := True\<rparr>, evs) \<and> Read \<notin> set evs)"
proof -
  have T: "0 < io_timeout (fresh_driver\<lparr>io_timeout := 2\<rparr>)"
    by simp
  from read_timeout_overdue [OF T, of silent_bus DS33_regs "[]" "Suc 0" Int_32bit] show ?thesis
    by (simp add: silent_bus_overdue_2 silent_bus_tracks)
qed

subsection \<open>No timeout configured (C7)\<close>

text \<open>
  C7. With \<open>io_timeout = 0\<close> the loop is never left by the timeout branch. If the
  bus reports six available bytes in some round, the read returns and the timeout flag
  is what it was; if it never does, the read does not return.
\<close>

theorem read_without_timeout:
  assumes "io_timeout drv = 0"
  shows
    "(\<forall>start w5 w6. poll ci tw (io_timeout drv) start w5 \<noteq> Some (True, w6))
     \<and> ((\<exists>k. ready_at tw (address drv) (OUTX_L_XL regs) w k) \<longrightarrow>
          (\<exists>drv' w'. readAcc ci tw regs (drv, w) = Some (drv', w')
             \<and> did_timeout drv' = did_timeout drv))
     \<and> ((\<forall>k. \<not> ready_at tw (address drv) (OUTX_L_XL regs) w k) \<longrightarrow>
          readAcc ci tw regs (drv, w) = None)
     \<and> ((\<exists>k. ready_at tw (address drv) (OUTX_L_G regs) w k) \<longrightarrow>
          (\<exists>drv' w'. readGyro ci tw regs (drv, w) = Some (drv', w')
             \<and> did_timeout drv' = did_timeout drv))
     \<and> ((\<forall>k. \<not> ready_at tw (address drv) (OUTX_L_G regs) w k) \<longrightarrow>
          readGyro ci tw regs (drv, w) = None)"
proof (intro conjI impI allI)
  fix start w5 w6
  show "poll ci tw (io_timeout drv) start w5 \<noteq> Some (True, w6)"
    by (simp add: assms poll_zero_not_timeout)
next
  assume "\<exists>k. ready_at tw (address drv) (OUTX_L_XL regs) w k"
  then obtain k where "ready_at tw (address drv) (OUTX_L_XL regs) w k" ..
  from readAcc_ready [OF assms this]
  show "\<exists>drv' w'. readAcc ci tw regs (drv, w) = Some (drv', w')
      \<and> did_timeout drv' = did_timeout drv"
    by simp
next
  assume "\<forall>k. \<not> ready_at tw (address drv) (OUTX_L_XL regs) w k"
  then show "readAcc ci tw regs (drv, w) = None"
    by (simp add: readAcc_unfold assms poll_never_ready)
next
  assume "\<exists>k. ready_at tw (address drv) (OUTX_L_G regs) w k"
  then obtain k where "ready_at tw (address drv) (OUTX_L_G regs) w k" ..
  from readGyro_ready [OF assms this]
  show "\<exists>drv' w'. readGyro ci tw regs (drv, w) = Some (drv', w')
      \<and> did_timeout drv' = did_timeout drv"
    by simp
next
  assume "\<forall>k. \<not> ready_at tw (address drv) (OUTX_L_G regs) w k"
  then show "readGyro ci tw regs (drv, w) = None"
    by (simp add: readGyro_unfold assms poll_never_ready)
qed

theorem read_without_timeout_witness:
  "io_timeout fresh_driver = 0
   \<and> ready_at late_bus (address fresh_driver) (OUTX_L_XL DS33_regs) [] 2
   \<and> (\<exists>drv' w'. readAcc Int_32bit late_bus DS33_regs (fresh_driver, []) = Some (drv', w')
        \<and> did_timeout drv' = did_timeout fresh_driver)
   \<and> (\<exists>drv' w'. readGyro Int_32bit late_bus DS33_regs (fresh_driver, []) = Some (drv', w')
        \<and> did_timeout drv' = did_timeout fresh_driver)
   \<and> readAcc Int_32bit silent_bus DS33_regs (fresh_driver, []) = None
   \<and> readGyro Int_32bit silent_bus DS33_regs (fresh_driver, []) = None"
proof -
  have T: "io_timeout fresh_driver = 0"
    by (simp add: fresh_driver_def)
  from read_without_timeout [OF T, of Int_32bit late_bus DS33_regs "[]"]
    read_without_timeout [OF T, of Int_32bit silent_bus DS33_regs "[]"]
    late_bus_ready silent_bus_never_ready T
  show ?thesis by blast
qed

subsection \<open>What a read leaves alone (C9)\<close>

text \<open>
  C9. A \<open>readAcc\<close> that returns has changed at most the accelerometer vector and the
  timeout flag: the gyro vector, the bus address, the device type, the configured
  timeout and the last status are the old ones. A \<open>readGyro\<close> that returns has changed
  at most the gyro vector and the timeout flag, so the accelerometer vector is the old
  one.
\<close>

theorem read_frame:
  "(readAcc ci tw regs (drv, w) = Some (drv', w') \<longrightarrow>
      drv' = drv\<lparr>a := a drv', did_timeout := did_timeout drv'\<rparr>
      \<and> g drv' = g drv \<and> address drv' = address drv \<and> LSM6_device drv' = LSM6_device drv
      \<and> io_timeout drv' = io_timeout drv \<and> last_status drv' = last_status drv)
   \<and> (readGyro ci tw regs (drv, w) = Some (drv'', w'') \<longrightarrow>
      drv'' = drv\<lparr>g := g drv'', did_timeout := did_timeout drv''\<rparr>
      \<and> a drv'' = a drv)"
  by (auto simp add: readAcc_unfold readGyro_unfold split: option.splits bool.splits)

theorem read_frame_witness:
  "(\<exists>drv' w'. readAcc Int_32bit late_bus DS33_regs (fresh_driver, []) = Some (drv', w')
      \<and> a drv' = \<lparr>x = - 2, y = - 2, z = - 2\<rparr>
      \<and> g drv' = g fresh_driver \<and> address drv' = address fresh_driver
      \<and> LSM6_device drv' = LSM6_device fresh_driver
      \<and> io_timeout drv' = io_timeout fresh_driver)
   \<and> (\<exists>drv' w'. readGyro Int_32bit late_bus DS33_regs (fresh_driver, []) = Some (drv', w')
      \<and> g drv' = \<lparr>x = - 2, y = - 2, z = - 2\<rparr>
      \<and> a drv' = a fresh_driver)"
proof -
  note acc = readAcc_late_bus [of Int_32bit]
  note gyro = readGyro_late_bus [of Int_32bit]
  have "readAcc Int_32bit late_bus DS33_regs (fresh_driver, []) =
      Some (fst (the (readAcc Int_32bit late_bus DS33_regs (fresh_driver, []))),
            snd (the (readAcc Int_32bit late_bus DS33_regs (fresh_driver, []))))"
    and "readGyro Int_32bit late_bus DS33_regs (fresh_driver, []) =
      Some (fst (the (readGyro Int_32bit late_bus DS33_regs (fresh_driver, []))),
            snd (the (readGyro Int_32bit late_bus DS33_regs (fresh_driver, []))))"
    by (simp_all only: acc gyro option.sel prod.collapse)
  with read_frame [of Int_32bit late_bus DS33_regs fresh_driver "[]"
      "fst (the (readAcc Int_32bit late_bus DS33_regs (fresh_driver, [])))"
      "snd (the (readAcc Int_32bit late_bus DS33_regs (fresh_driver, [])))"
      "fst (the (readGyro Int_32bit late_bus DS33_regs (fresh_driver, [])))"
      "snd (the (readGyro Int_32bit late_bus DS33_regs (fresh_driver, [])))"]
  have "g (fst (the (readAcc Int_32bit late_bus DS33_regs (fresh_driver, [])))) = g fresh_driver
      \<and> address (fst (the (readAcc Int_32bit late_bus DS33_regs (fresh_driver, [])))) =
          address fresh_driver
      \<and> LSM6_device (fst (the (readAcc Int_32bit late_bus DS33_regs (fresh_driver, [])))) =
          LSM6_device fresh_driver
      \<and> io_timeout (fst (the (readAcc Int_32bit late_bus DS33_regs (fresh_driver, [])))) =
          io_timeout fresh_driver
      \<and> a (fst (the (readGyro Int_32bit late_bus DS33_regs (fresh_driver, [])))) = a fresh_driver"
    by blast
  then show ?thesis
    by (simp add: acc gyro)
qed

section \<open>What the signed difference does to the loop\<close>

text \<open>
  With a 32-bit \<open>int\<close>, a read that starts less than \<open>io_timeout\<close> before the 16-bit
  counter wraps can leave the loop only when six bytes are available: the timeout test
  never holds. On the silent bus, with the clock at 65504 when the read starts and a
  timeout of 100, the read does not return; with a 16-bit \<open>int\<close> the same read times
  out.
\<close>

lemma poll_32bit_hangs:
  "poll ci tw T start w = Some r \<Longrightarrow>
     ci = Int_32bit \<and> 0 < T \<and> 65535 \<le> uint start + uint T \<longrightarrow>
     (\<exists>evs. 6 \<le> available_count tw (w @ evs))"
proof (induction rule: poll_induct)
  case (step f ci tw T start w r)
  note IH = step.IH and eq = step.hyps
  show ?case
  proof (cases "available_count tw w < 6")
    case False
    then have "6 \<le> available_count tw (w @ [])" by simp
    then show ?thesis by blast
  next
    case True
    show ?thesis
    proof
      assume late: "ci = Int_32bit \<and> 0 < T \<and> 65535 \<le> uint start + uint T"
      then have "\<not> timeout_expired ci T (millis_value tw (w @ [Available])) start"
        by (simp add: timeout_expired_32bit_never)
      with True late eq have "f ci tw T start (w @ [Available, Millis]) = Some r"
        by (simp add: available_def millis_def)
      from IH [OF this] late obtain evs
        where "6 \<le> available_count tw ((w @ [Available, Millis]) @ evs)"
        by blast
      then have "6 \<le> available_count tw (w @ ([Available, Millis] @ evs))"
        by simp
      then show "\<exists>evs. 6 \<le> available_count tw (w @ evs)" ..
    qed
  qed
qed

lemma readAcc_32bit_hangs:
  "readAcc Int_32bit (silent_bus_from 65500) DS33_regs (fresh_driver\<lparr>io_timeout := 100\<rparr>, []) = None"
proof -
  have "poll Int_32bit (silent_bus_from 65500) 100 65504 w = None" for w
  proof (rule ccontr)
    assume "poll Int_32bit (silent_bus_from 65500) 100 65504 w \<noteq> None"
    then obtain r where "poll Int_32bit (silent_bus_from 65500) 100 65504 w = Some r"
      by blast
    from poll_32bit_hangs [OF this] show False
      by (simp add: silent_bus_from_def)
  qed
  then show ?thesis
    by (simp add: readAcc_unfold requested_def silent_bus_from_def)
qed

lemma readAcc_16bit_returns:
  "\<exists>evs. readAcc Int_16bit (silent_bus_from 65500) DS33_regs (fresh_driver\<lparr>io_timeout := 100\<rparr>, []) =
     Some (fresh_driver\<lparr>io_timeout := 100, did_timeout := True\<rparr>, evs)"
proof -
  have "times_out_at Int_16bit (silent_bus_from 65500) 100 addr reg [] 50" for addr reg
    by (simp add: times_out_at_def silent_bus_from_def timeout_expired_def elapsed_def
        length_polled requested_def)
  then obtain evs where
    "poll Int_16bit (silent_bus_from 65500) 100
       (ucast (millis_value (silent_bus_from 65500) (requested 0 0x28 [])))
       (requested 0 0x28 [] @ [Millis]) = Some (True, [] @ evs)"
    using poll_times_out [of 100 Int_16bit "silent_bus_from 65500" 0 "0x28" "[]" 50] by auto
  then show ?thesis
    by (simp add: readAcc_unfold fresh_driver_def DS33_regs_def)
qed

end
